theory Spec2Isabelle
  imports Main "HOL-Library.Word"
begin

section \<open>In-memory cache with per-entry expiration (internal/cache.go)\<close>

text \<open>
  The engine of \<^verbatim>\<open>internal/cache.go\<close>: a map from string keys to items guarded by one
  reader/writer lock, and a background goroutine that periodically collects the expired
  keys and deletes them. Every critical section of the source (the body executed between
  taking and releasing \<^verbatim>\<open>rmu\<close>) is one atomic function of the model; the interleaving of
  the callers with the goroutine is the step function \<open>step\<close> at the end of this section.
  The diagnostic lines written by \<^verbatim>\<open>fmt.Printf\<close> and \<^verbatim>\<open>fmt.Println\<close> are not part of the
  state and are left out.
\<close>

subsection \<open>Time and machine integers\<close>

text \<open>
  \<^verbatim>\<open>int64\<close> and \<^verbatim>\<open>time.Duration\<close> are 64-bit two's complement words; the source compares
  them as signed numbers (\<open><s\<close>). An instant (\<^verbatim>\<open>time.Time\<close>) is its number of nanoseconds
  since the Unix epoch, as an unbounded integer: \<^verbatim>\<open>time.Time\<close> spans far more than an
  \<^verbatim>\<open>int64\<close> of nanoseconds. \<^verbatim>\<open>Time.Add\<close> moves an instant by a duration and
  \<^verbatim>\<open>Time.UnixNano\<close> reads it into an \<^verbatim>\<open>int64\<close>, which wraps around for instants outside
  the years 1678 to 2262.
\<close>

type_synonym int64 = "64 word"

type_synonym time = int

definition UnixNano :: "time \<Rightarrow> int64" where
  "UnixNano t = word_of_int t"

definition Add :: "time \<Rightarrow> int64 \<Rightarrow> time" where
  "Add t d = t + sint d"

subsection \<open>Items and the engine\<close>

text \<open>
  A value of type \<^verbatim>\<open>interface{}\<close> is \<open>None\<close> for \<^verbatim>\<open>nil\<close> and \<open>Some v\<close> otherwise.
  The field \<^verbatim>\<open>cache\<close> is a Go map, which may be \<^verbatim>\<open>nil\<close> (\<open>None\<close>): reading a nil map
  finds nothing, \<^verbatim>\<open>delete\<close> on it does nothing, ranging over it visits nothing and
  assigning into it panics.
\<close>

record 'v Item =
  value' :: "'v option"
  createdAt :: time
  expiration :: int64

record 'v InMemoryCache =
  cache :: "(string \<rightharpoonup> 'v Item) option"
  defaultExpiration :: int64
  cleanupInterval :: int64

datatype error = errors_New string

datatype panic = AssignmentToEntryInNilMap

text \<open>The index expression \<^verbatim>\<open>c.cache[key]\<close> with its \<^verbatim>\<open>found\<close> flag.\<close>

definition table :: "'v InMemoryCache \<Rightarrow> (string \<rightharpoonup> 'v Item)" where
  "table c = (case cache c of None \<Rightarrow> Map.empty | Some m \<Rightarrow> m)"

text \<open>The builtin \<^verbatim>\<open>delete(m, key)\<close>.\<close>

definition delete :: "(string \<rightharpoonup> 'v Item) option \<Rightarrow> string \<Rightarrow> (string \<rightharpoonup> 'v Item) option" where
  "delete m key = (case m of None \<Rightarrow> None | Some t \<Rightarrow> Some (t(key := None)))"

subsection \<open>The public operations\<close>

text \<open>
  \<^verbatim>\<open>Get\<close> holds the read lock only. It returns the pair of the source together with the
  engine it leaves behind. \<open>now\<close> is the reading of \<^verbatim>\<open>time.Now()\<close>.
\<close>

definition Get :: "'v InMemoryCache \<Rightarrow> string \<Rightarrow> time \<Rightarrow> ('v option \<times> bool) \<times> 'v InMemoryCache" where
  "Get c key now =
     (case table c key of
        None \<Rightarrow> ((None, False), c)
      | Some item \<Rightarrow>
          if 0 <s expiration item then
            if expiration item <s UnixNano now then ((None, False), c)
            else ((value' item, True), c)
          else ((value' item, True), c))"

text \<open>
  \<^verbatim>\<open>Set\<close> reads the clock twice: \<open>now\<close> for the expiration (only when the duration is
  positive) and \<open>created\<close> for \<^verbatim>\<open>createdAt\<close>. The assignment panics on a nil map.
\<close>

definition Set :: "'v InMemoryCache \<Rightarrow> string \<Rightarrow> 'v option \<Rightarrow> int64 \<Rightarrow> time \<Rightarrow> time \<Rightarrow> panic + 'v InMemoryCache" where
  "Set c key v duration now created =
     (let duration = (if duration = 0 then defaultExpiration c else duration);
          expiration = (if 0 <s duration then UnixNano (Add now duration) else 0)
      in case cache c of
           None \<Rightarrow> Inl AssignmentToEntryInNilMap
         | Some m \<Rightarrow>
             Inr (c\<lparr>cache := Some (m(key \<mapsto> \<lparr>value' = v, createdAt = created, expiration = expiration\<rparr>))\<rparr>))"

text \<open>\<^verbatim>\<open>Delete\<close> returns the error (\<open>None\<close> for \<^verbatim>\<open>nil\<close>) and the engine.\<close>

definition Delete :: "'v InMemoryCache \<Rightarrow> string \<Rightarrow> error option \<times> 'v InMemoryCache" where
  "Delete c key =
     (case table c key of
        None \<Rightarrow> (Some (errors_New (''key: '' @ [CHR 0x27] @ key @ [CHR 0x27] @ '' not found'')), c)
      | Some _ \<Rightarrow> (None, c\<lparr>cache := delete (cache c) key\<rparr>))"

definition Flush :: "'v InMemoryCache \<Rightarrow> 'v InMemoryCache" where
  "Flush c = c\<lparr>cache := Some Map.empty\<rparr>"

subsection \<open>The sweeper's two critical sections\<close>

text \<open>
  \<^verbatim>\<open>expiredKeys\<close> ranges over the map under the read lock. Go leaves the order of a range
  over a map open, so the order is the parameter \<open>order\<close>, the keys as the range visits
  them; the clock is read once per visited item, \<open>clk k\<close> being the reading taken at key
  \<open>k\<close>. The loop appends to the result slice, which starts \<^verbatim>\<open>nil\<close> (the empty list).
\<close>

fun expiredKeys_range :: "(string \<rightharpoonup> 'v Item) \<Rightarrow> (string \<Rightarrow> time) \<Rightarrow> string list \<Rightarrow> string list \<Rightarrow> string list" where
  "expiredKeys_range m clk [] keys = keys"
| "expiredKeys_range m clk (k # order) keys =
     (case m k of
        None \<Rightarrow> expiredKeys_range m clk order keys
      | Some i \<Rightarrow>
          if expiration i <s UnixNano (clk k) \<and> 0 <s expiration i
          then expiredKeys_range m clk order (keys @ [k])
          else expiredKeys_range m clk order keys)"

definition expiredKeys :: "'v InMemoryCache \<Rightarrow> string list \<Rightarrow> (string \<Rightarrow> time) \<Rightarrow> string list" where
  "expiredKeys c order clk = expiredKeys_range (table c) clk order []"

text \<open>\<^verbatim>\<open>clearItems\<close> deletes every key of the list under the write lock.\<close>

fun clearItems :: "'v InMemoryCache \<Rightarrow> string list \<Rightarrow> 'v InMemoryCache" where
  "clearItems c [] = c"
| "clearItems c (k # keys) = clearItems (c\<lparr>cache := delete (cache c) k\<rparr>) keys"

text \<open>
  One turn of the loop of \<^verbatim>\<open>GC\<close> after the wait, with nothing running in between:
  \<open>None\<close> when the goroutine returns because the map is nil.
\<close>

definition GC_turn :: "'v InMemoryCache \<Rightarrow> string list \<Rightarrow> (string \<Rightarrow> time) \<Rightarrow> 'v InMemoryCache option" where
  "GC_turn c order clk =
     (case cache c of
        None \<Rightarrow> None
      | Some _ \<Rightarrow>
          (let keys = expiredKeys c order clk
           in if length keys \<noteq> 0 then Some (clearItems c keys) else Some c))"

subsection \<open>Construction and the running process\<close>

text \<open>
  The process is the engine together with the sweeper goroutine: not started, waiting
  for its timer, past the nil test and about to scan, holding the scanned keys and about
  to evict, or returned.
\<close>

datatype sweeper_state = NotStarted | Idle | Scanning | Evicting "string list" | Exited

record 'v process =
  engine :: "'v InMemoryCache"
  sweeper :: sweeper_state

definition StartGC :: "'v process \<Rightarrow> 'v process" where
  "StartGC p = p\<lparr>sweeper := Idle\<rparr>"

definition NewInMemoryCache :: "int64 \<Rightarrow> int64 \<Rightarrow> 'v process" where
  "NewInMemoryCache DefaultExpiration CleanupInterval =
     (let p = \<lparr>engine = \<lparr>cache = Some Map.empty,
                          defaultExpiration = DefaultExpiration,
                          cleanupInterval = CleanupInterval\<rparr>,
               sweeper = NotStarted\<rparr>
      in if 0 <s CleanupInterval then StartGC p else p)"

text \<open>
  What can happen next: a caller runs one of the four methods of the \<^verbatim>\<open>Cache\<close> interface
  that the constructor returns, or the sweeper goroutine takes its next step: its timer
  fires and it tests the map for nil, it scans, or it evicts the keys it has scanned.
  \<open>step\<close> is \<open>None\<close> when the action cannot happen in that state (the sweeper is
  elsewhere in its loop, or was never started) or when it panics.
\<close>

datatype 'v action =
    CallGet string time
  | CallSet string "'v option" int64 time time
  | CallDelete string
  | CallFlush
  | GcWake
  | GcScan "string list" "string \<Rightarrow> time"
  | GcEvict

fun step :: "'v process \<Rightarrow> 'v action \<Rightarrow> 'v process option" where
  "step p (CallGet key now) = Some (p\<lparr>engine := snd (Get (engine p) key now)\<rparr>)"
| "step p (CallSet key v duration now created) =
     (case Set (engine p) key v duration now created of
        Inl _ \<Rightarrow> None
      | Inr c \<Rightarrow> Some (p\<lparr>engine := c\<rparr>))"
| "step p (CallDelete key) = Some (p\<lparr>engine := snd (Delete (engine p) key)\<rparr>)"
| "step p CallFlush = Some (p\<lparr>engine := Flush (engine p)\<rparr>)"
| "step p GcWake =
     (case sweeper p of
        Idle \<Rightarrow> (case cache (engine p) of
                   None \<Rightarrow> Some (p\<lparr>sweeper := Exited\<rparr>)
                 | Some _ \<Rightarrow> Some (p\<lparr>sweeper := Scanning\<rparr>))
      | _ \<Rightarrow> None)"
| "step p (GcScan order clk) =
     (case sweeper p of
        Scanning \<Rightarrow>
          (let keys = expiredKeys (engine p) order clk
           in if length keys \<noteq> 0 then Some (p\<lparr>sweeper := Evicting keys\<rparr>)
              else Some (p\<lparr>sweeper := Idle\<rparr>))
      | _ \<Rightarrow> None)"
| "step p GcEvict =
     (case sweeper p of
        Evicting keys \<Rightarrow> Some (p\<lparr>engine := clearItems (engine p) keys, sweeper := Idle\<rparr>)
      | _ \<Rightarrow> None)"

fun run :: "'v process \<Rightarrow> 'v action list \<Rightarrow> 'v process option" where
  "run p [] = Some p"
| "run p (a # as) = (case step p a of None \<Rightarrow> None | Some p' \<Rightarrow> run p' as)"

text \<open>
  The actions of the sweeper, the calls that take entries out of the map, and the calls
  that write the entry of a given key.
\<close>

fun sweeper_action :: "'v action \<Rightarrow> bool" where
  "sweeper_action GcWake = True"
| "sweeper_action (GcScan order clk) = True"
| "sweeper_action GcEvict = True"
| "sweeper_action _ = False"

fun removal_call :: "'v action \<Rightarrow> bool" where
  "removal_call (CallDelete key) = True"
| "removal_call CallFlush = True"
| "removal_call _ = False"

fun sets_key :: "string \<Rightarrow> 'v action \<Rightarrow> bool" where
  "sets_key k (CallSet key v duration now created) = (key = k)"
| "sets_key k _ = False"

subsection \<open>Concrete engines\<close>

text \<open>
  A clock that shows the same instant at every item of a scan, and three small engines:
  one with an item that expired at 5 ns and an item that never expires; the same engine
  after \<^verbatim>\<open>Set("a", "new", 100)\<close> at instant 10; and a fresh engine after
  \<^verbatim>\<open>Set("a", "x", math.MaxInt64)\<close> at instant 1793000000000000000 (November 2026), where
  \<^verbatim>\<open>UnixNano\<close> of the instant 292 years ahead has wrapped around to a negative number.
\<close>

definition steady_clock :: "time \<Rightarrow> string \<Rightarrow> time" where
  "steady_clock t k = t"

definition stale_item :: "string Item" where
  "stale_item = \<lparr>value' = Some ''old'', createdAt = 0, expiration = 5\<rparr>"

definition pinned_item :: "string Item" where
  "pinned_item = \<lparr>value' = Some ''keep'', createdAt = 0, expiration = 0\<rparr>"

definition fresh_item :: "string Item" where
  "fresh_item = \<lparr>value' = Some ''new'', createdAt = 10, expiration = 110\<rparr>"

definition wrapped_item :: "string Item" where
  "wrapped_item = \<lparr>value' = Some ''x'', createdAt = 1793000000000000000,
                    expiration = - 7430372036854775809\<rparr>"

definition stale_table :: "string \<rightharpoonup> string Item" where
  "stale_table = [''b'' \<mapsto> pinned_item, ''a'' \<mapsto> stale_item]"

definition stale_engine :: "string InMemoryCache" where
  "stale_engine = \<lparr>cache = Some stale_table, defaultExpiration = 7, cleanupInterval = 20\<rparr>"

definition refreshed_engine :: "string InMemoryCache" where
  "refreshed_engine = \<lparr>cache = Some [''b'' \<mapsto> pinned_item, ''a'' \<mapsto> fresh_item],
                        defaultExpiration = 7, cleanupInterval = 20\<rparr>"

definition wrapped_engine :: "string InMemoryCache" where
  "wrapped_engine = \<lparr>cache = Some [''a'' \<mapsto> wrapped_item],
                      defaultExpiration = 0, cleanupInterval = 20\<rparr>"

section \<open>Properties\<close>

subsection \<open>Auxiliary facts\<close>

lemma sless_zero_neg: "(d::int64) <s 0 \<Longrightarrow> d \<noteq> 0 \<and> \<not> 0 <s d"
  by (auto simp: word_sless_alt)

lemma table_delete [simp]: "table (c\<lparr>cache := delete (cache c) k\<rparr>) = (table c)(k := None)"
  by (auto simp: table_def delete_def split: option.splits)

lemma delete_eq_None [simp]: "(delete m k = None) = (m = None)"
  by (simp add: delete_def split: option.splits)

lemma table_clearItems:
  "table (clearItems c keys) k = (if k \<in> set keys then None else table c k)"
  by (induction c keys rule: clearItems.induct) auto

lemma cache_clearItems_None [simp]: "(cache (clearItems c keys) = None) = (cache c = None)"
  by (induction c keys rule: clearItems.induct) auto

lemma expiredKeys_range_filter:
  "expiredKeys_range m clk order keys =
     keys @ filter (\<lambda>k. case m k of None \<Rightarrow> False
                        | Some i \<Rightarrow> expiration i <s UnixNano (clk k) \<and> 0 <s expiration i) order"
  by (induction order arbitrary: keys) (auto split: option.splits)

lemma set_expiredKeys:
  "set (expiredKeys c order clk) =
     {k \<in> set order. \<exists>i. table c k = Some i \<and> expiration i <s UnixNano (clk k) \<and> 0 <s expiration i}"
  by (auto simp: expiredKeys_def expiredKeys_range_filter split: option.splits)

text \<open>
  Inside the range of \<^verbatim>\<open>int64\<close> the reading of a moved instant is the sum; outside it is
  the sum modulo \<open>2 ^ 64\<close>, as in the second lemma.
\<close>

lemma UnixNano_Add_in_range:
  assumes "- (2 ^ 63) \<le> now + sint d" and "now + sint d < 2 ^ 63"
  shows "sint (UnixNano (Add now d)) = now + sint d"
proof -
  have "sint (word_of_int (now + sint d) :: int64) = signed_take_bit 63 (now + sint d)"
    by (simp only: sint_sbintrunc') simp
  also have "\<dots> = now + sint d"
    using assms by (intro signed_take_bit_int_eq_self) simp_all
  finally show ?thesis by (simp only: UnixNano_def Add_def)
qed

lemma sint_word_of_int_in_range:
  assumes "- (2 ^ 63) \<le> x" and "x < 2 ^ 63"
  shows "sint (word_of_int x :: int64) = x"
proof -
  have "sint (word_of_int x :: int64) = signed_take_bit 63 x"
    by (simp only: sint_sbintrunc') simp
  also have "\<dots> = x"
    using assms by (intro signed_take_bit_int_eq_self) simp_all
  finally show ?thesis .
qed

lemma UnixNano_Add_wraps:
  "UnixNano (Add 1793000000000000000 9223372036854775807) = - 7430372036854775809"
  unfolding UnixNano_def Add_def by (simp add: word_uint_eq_iff)

lemma snd_Get [simp]: "snd (Get c key now) = c"
  by (simp add: Get_def split: option.splits)

lemma Set_Inr:
  assumes "Set c key v ttl now created = Inr c'"
  shows "cache c' \<noteq> None" and "table c k \<noteq> None \<Longrightarrow> table c' k \<noteq> None"
  using assms by (auto simp: Set_def Let_def table_def split: option.splits)

lemma Set_other_key:
  assumes "Set c key v ttl now created = Inr c'" and "key \<noteq> k"
  shows "table c' k = table c k"
  using assms by (auto simp: Set_def Let_def table_def split: option.splits)

lemma Set_allocated: "cache c \<noteq> None \<Longrightarrow> \<exists>c'. Set c key v ttl now created = Inr c'"
  by (auto simp: Set_def Let_def)

lemma cache_Delete_None [simp]: "(cache (snd (Delete c key)) = None) = (cache c = None)"
  by (simp add: Delete_def split: option.splits)

lemma Delete_allocated: "cache c = Some m \<Longrightarrow> \<exists>m'. cache (snd (Delete c key)) = Some m'"
  using cache_Delete_None [of c key] by (simp del: cache_Delete_None)

lemma clearItems_allocated: "cache c = Some m \<Longrightarrow> \<exists>m'. cache (clearItems c keys) = Some m'"
  using cache_clearItems_None [of c keys] by (simp del: cache_clearItems_None)

lemma cache_Flush [simp]: "cache (Flush c) = Some Map.empty"
  by (simp add: Flush_def)

lemma New_engine:
  "engine (NewInMemoryCache d ci) =
     \<lparr>cache = Some Map.empty, defaultExpiration = d, cleanupInterval = ci\<rparr>"
  by (simp add: NewInMemoryCache_def StartGC_def Let_def)

lemma New_sweeper:
  "sweeper (NewInMemoryCache d ci) = (if 0 <s ci then Idle else NotStarted)"
  by (simp add: NewInMemoryCache_def StartGC_def Let_def)

text \<open>Steps and runs of a process whose sweeper was never started.\<close>

lemma step_NotStarted:
  assumes "sweeper p = NotStarted" and "step p a = Some p'"
  shows "sweeper p' = NotStarted \<and> \<not> sweeper_action a"
  using assms by (cases a) (auto split: sum.splits)

lemma run_NotStarted:
  assumes "sweeper p = NotStarted" and "run p acts = Some p'"
  shows "sweeper p' = NotStarted \<and> (\<forall>a\<in>set acts. \<not> sweeper_action a)"
  using assms
proof (induction acts arbitrary: p)
  case Nil
  then show ?case by simp
next
  case (Cons a acts)
  from Cons.prems obtain q where q: "step p a = Some q" and r: "run q acts = Some p'"
    by (auto split: option.splits)
  from step_NotStarted [OF Cons.prems(1) q] Cons.IH [OF _ r] show ?case by simp
qed

lemma step_keeps_keys:
  assumes "step p a = Some p'" and "\<not> sweeper_action a" and "\<not> removal_call a"
    and "table (engine p) k \<noteq> None"
  shows "table (engine p') k \<noteq> None"
  using assms by (cases a) (auto dest: Set_Inr(2) split: sum.splits)

lemma step_keeps_entry:
  assumes "step p a = Some p'" and "\<not> sweeper_action a" and "\<not> removal_call a"
    and "\<not> sets_key k a"
  shows "table (engine p') k = table (engine p) k"
  using assms by (cases a) (auto dest: Set_other_key split: sum.splits)

lemma run_keeps_keys:
  assumes "sweeper p = NotStarted" and "run p acts = Some p'"
    and "\<forall>a\<in>set acts. \<not> removal_call a" and "table (engine p) k \<noteq> None"
  shows "table (engine p') k \<noteq> None"
  using assms
proof (induction acts arbitrary: p)
  case Nil
  then show ?case by simp
next
  case (Cons a acts)
  from Cons.prems obtain q where q: "step p a = Some q" and r: "run q acts = Some p'"
    by (auto split: option.splits)
  from step_NotStarted [OF Cons.prems(1) q]
  have ns: "sweeper q = NotStarted" and na: "\<not> sweeper_action a" by simp_all
  from Cons.prems(3) have nr: "\<not> removal_call a" and rest: "\<forall>a\<in>set acts. \<not> removal_call a"
    by simp_all
  from step_keeps_keys [OF q na nr Cons.prems(4)] have "table (engine q) k \<noteq> None" .
  from Cons.IH [OF ns r rest this] show ?case .
qed

lemma run_keeps_entry:
  assumes "sweeper p = NotStarted" and "run p acts = Some p'"
    and "\<forall>a\<in>set acts. \<not> removal_call a \<and> \<not> sets_key k a"
  shows "table (engine p') k = table (engine p) k"
  using assms
proof (induction acts arbitrary: p)
  case Nil
  then show ?case by simp
next
  case (Cons a acts)
  from Cons.prems obtain q where q: "step p a = Some q" and r: "run q acts = Some p'"
    by (auto split: option.splits)
  from step_NotStarted [OF Cons.prems(1) q]
  have ns: "sweeper q = NotStarted" and na: "\<not> sweeper_action a" by simp_all
  from Cons.prems(3) have nr: "\<not> removal_call a" "\<not> sets_key k a"
    and rest: "\<forall>a\<in>set acts. \<not> removal_call a \<and> \<not> sets_key k a"
    by simp_all
  from step_keeps_entry [OF q na nr] Cons.IH [OF ns r rest] show ?case by simp
qed

text \<open>The map stays allocated and the sweeper stays in its loop.\<close>

lemma step_cache_allocated:
  assumes "cache (engine p) \<noteq> None" and "sweeper p \<noteq> Exited" and "step p a = Some p'"
  shows "cache (engine p') \<noteq> None \<and> sweeper p' \<noteq> Exited"
  using assms
  by (cases a)
    (auto simp: Let_def dest: Set_Inr(1) intro: Delete_allocated clearItems_allocated
      split: sum.splits option.splits sweeper_state.splits if_splits)

lemma run_cache_allocated:
  assumes "cache (engine p) \<noteq> None" and "sweeper p \<noteq> Exited" and "run p acts = Some p'"
  shows "cache (engine p') \<noteq> None \<and> sweeper p' \<noteq> Exited"
  using assms
proof (induction acts arbitrary: p)
  case Nil
  then show ?case by simp
next
  case (Cons a acts)
  from Cons.prems obtain q where q: "step p a = Some q" and r: "run q acts = Some p'"
    by (auto split: option.splits)
  from step_cache_allocated [OF Cons.prems(1,2) q] Cons.IH [OF _ _ r] show ?case by simp
qed

text \<open>The concrete engines, evaluated.\<close>

lemma Set_stale_engine:
  "Set stale_engine ''a'' (Some ''new'') 100 10 10 = Inr refreshed_engine"
  by (simp add: stale_item_def pinned_item_def fresh_item_def
      stale_table_def stale_engine_def refreshed_engine_def
      Set_def UnixNano_def Add_def word_sless_alt)

lemma table_stale_engine:
  "table stale_engine ''a'' = Some stale_item"
  "table stale_engine ''b'' = Some pinned_item"
  "table stale_engine ''c'' = None"
  by (simp_all add: stale_engine_def stale_table_def table_def)

subsection \<open>The eviction step\<close>




subsection \<open>Get\<close>

text \<open>
  C2, as the specification states it: \<^verbatim>\<open>Get\<close> reports not-found for a present key whose
  expiration is nonzero and before the current time. The code tests \<^verbatim>\<open>expiration > 0\<close>,
  not \<^verbatim>\<open>expiration != 0\<close>. \<^verbatim>\<open>Set("a", "x", math.MaxInt64)\<close> on a fresh engine stores a
  negative expiration, because \<^verbatim>\<open>UnixNano\<close> wraps around; one nanosecond later that
  expiration is nonzero and in the past, and \<^verbatim>\<open>Get\<close> returns the value.
\<close>

theorem Get_finds_negative_expiration:
  "Set (engine (NewInMemoryCache 0 20)) ''a'' (Some ''x'') 9223372036854775807
       1793000000000000000 1793000000000000000 = Inr wrapped_engine \<and>
   table wrapped_engine ''a'' = Some wrapped_item \<and>
   expiration wrapped_item \<noteq> 0 \<and>
   expiration wrapped_item <s UnixNano 1793000000000000001 \<and>
   fst (Get wrapped_engine ''a'' 1793000000000000001) = (Some ''x'', True)"
proof -
  have pos: "(0::int64) <s 9223372036854775807"
    by (simp add: word_sless_alt)
  have written: "Set (engine (NewInMemoryCache 0 20)) ''a'' (Some ''x'') 9223372036854775807
       1793000000000000000 1793000000000000000 = Inr wrapped_engine"
    by (simp add: wrapped_engine_def wrapped_item_def New_engine Set_def
        UnixNano_Add_wraps pos)
  have looked_up: "fst (Get wrapped_engine ''a'' 1793000000000000001) = (Some ''x'', True)"
    by (simp add: wrapped_engine_def wrapped_item_def Get_def table_def word_sless_alt)
  have past: "expiration wrapped_item <s UnixNano 1793000000000000001"
    by (simp add: wrapped_item_def UnixNano_def)
  show ?thesis
    using written looked_up past by (simp add: wrapped_engine_def table_def wrapped_item_def)
qed

text \<open>
  C2, amended: \<^verbatim>\<open>Get\<close> returns not-found when the key is absent; not-found when the key
  is present with an expiration greater than zero and the current time is strictly after
  it; and the stored value with found = true when the key is present and either its
  expiration is zero or negative or the current time is not strictly after it.
\<close>

theorem Get_result:
  "(table c key = None \<longrightarrow> fst (Get c key now) = (None, False)) \<and>
   (table c key = Some item \<and> 0 <s expiration item \<and> expiration item <s UnixNano now
      \<longrightarrow> fst (Get c key now) = (None, False)) \<and>
   (table c key = Some item \<and> (expiration item \<le>s 0 \<or> \<not> expiration item <s UnixNano now)
      \<longrightarrow> fst (Get c key now) = (value' item, True))"
  by (auto simp: Get_def)

theorem Get_result_witness:
  "table stale_engine ''c'' = None \<and> fst (Get stale_engine ''c'' 10) = (None, False) \<and>
   table stale_engine ''a'' = Some stale_item \<and> 0 <s expiration stale_item \<and>
   expiration stale_item <s UnixNano 10 \<and> fst (Get stale_engine ''a'' 10) = (None, False) \<and>
   table stale_engine ''b'' = Some pinned_item \<and> expiration pinned_item \<le>s 0 \<and>
   fst (Get stale_engine ''b'' 10) = (Some ''keep'', True)"
proof -
  have absent: "table stale_engine ''c'' = None"
    and stale: "table stale_engine ''a'' = Some stale_item"
    and pinned: "table stale_engine ''b'' = Some pinned_item"
    by (simp_all add: stale_engine_def stale_table_def table_def)
  have past: "0 <s expiration stale_item \<and> expiration stale_item <s UnixNano 10"
    by (simp add: stale_item_def UnixNano_def word_sless_alt)
  have never: "expiration pinned_item \<le>s 0"
    by (simp add: pinned_item_def)
  show ?thesis
    using absent stale pinned past never
      Get_result [where c = stale_engine and key = "''c''" and now = 10 and item = stale_item]
      Get_result [where c = stale_engine and key = "''a''" and now = 10 and item = stale_item]
      Get_result [where c = stale_engine and key = "''b''" and now = 10 and item = pinned_item]
    by (simp add: pinned_item_def)
qed



subsection \<open>Set\<close>

text \<open>
  C3, as the specification states it: when the resulting TTL is greater than zero, the
  stored expiration is the current time plus that TTL. The expiration is an \<^verbatim>\<open>int64\<close>,
  and \<^verbatim>\<open>UnixNano\<close> wraps around: \<^verbatim>\<open>Set("a", "x", math.MaxInt64)\<close> on a fresh engine at
  instant 1793000000000000000 has a TTL greater than zero and stores an expiration that
  is not the sum of the two, is negative and lies before the current time.
\<close>

theorem Set_expiration_overflows:
  "cache (engine (NewInMemoryCache 0 20 :: string process)) = Some Map.empty \<and>
   (0::int64) <s 9223372036854775807 \<and>
   Set (engine (NewInMemoryCache 0 20)) ''a'' (Some ''x'') 9223372036854775807
       1793000000000000000 1793000000000000000 = Inr wrapped_engine \<and>
   table wrapped_engine ''a'' = Some wrapped_item \<and>
   sint (expiration wrapped_item) \<noteq> 1793000000000000000 + sint (9223372036854775807 :: int64) \<and>
   sint (expiration wrapped_item) < 0 \<and>
   expiration wrapped_item <s UnixNano 1793000000000000000"
proof -
  have pos: "(0::int64) <s 9223372036854775807"
    by (simp add: word_sless_alt)
  have written: "Set (engine (NewInMemoryCache 0 20)) ''a'' (Some ''x'') 9223372036854775807
       1793000000000000000 1793000000000000000 = Inr wrapped_engine"
    by (simp add: wrapped_engine_def wrapped_item_def New_engine Set_def
        UnixNano_Add_wraps pos)
  have stored: "table wrapped_engine ''a'' = Some wrapped_item"
    by (simp add: wrapped_engine_def table_def)
  have reading: "sint (expiration wrapped_item) = - 7430372036854775809"
    by (simp add: wrapped_item_def)
  have ttl: "sint (9223372036854775807 :: int64) = 9223372036854775807"
    by simp
  have before: "expiration wrapped_item <s UnixNano 1793000000000000000"
    by (simp add: wrapped_item_def UnixNano_def)
  show ?thesis
    using pos written stored before by (simp add: reading ttl New_engine)
qed

text \<open>
  C3, amended: on an engine whose map is allocated, \<^verbatim>\<open>Set(key, value, ttl)\<close> stores an
  item under \<open>key\<close> whose expiration is computed as follows. A zero \<open>ttl\<close> is replaced by
  the default TTL; when the resulting TTL is greater than zero the expiration is the
  current time plus that TTL in nanoseconds, reduced to an \<^verbatim>\<open>int64\<close> modulo \<open>2 ^ 64\<close>, and
  so equal to the sum whenever the sum lies in the range of \<^verbatim>\<open>int64\<close>; when the resulting
  TTL is zero or negative the expiration is the never-expires value 0. A negative \<open>ttl\<close>
  is not replaced by the default.
\<close>

theorem Set_expiration:
  assumes "cache c = Some m"
  shows "\<exists>c' i. Set c key v ttl now created = Inr c' \<and> table c' key = Some i \<and>
           value' i = v \<and> createdAt i = created \<and>
           (ttl = 0 \<and> 0 <s defaultExpiration c
              \<longrightarrow> expiration i = word_of_int (now + sint (defaultExpiration c)) \<and>
                  (- (2 ^ 63) \<le> now + sint (defaultExpiration c) \<and>
                   now + sint (defaultExpiration c) < 2 ^ 63
                     \<longrightarrow> sint (expiration i) = now + sint (defaultExpiration c))) \<and>
           (ttl = 0 \<and> \<not> 0 <s defaultExpiration c \<longrightarrow> expiration i = 0) \<and>
           (0 <s ttl
              \<longrightarrow> expiration i = word_of_int (now + sint ttl) \<and>
                  (- (2 ^ 63) \<le> now + sint ttl \<and> now + sint ttl < 2 ^ 63
                     \<longrightarrow> sint (expiration i) = now + sint ttl)) \<and>
           (ttl <s 0 \<longrightarrow> expiration i = 0)"
proof -
  let ?d = "if ttl = 0 then defaultExpiration c else ttl"
  let ?e = "if 0 <s ?d then UnixNano (Add now ?d) else 0"
  let ?i = "\<lparr>value' = v, createdAt = created, expiration = ?e\<rparr>"
  let ?c' = "c\<lparr>cache := Some (m(key \<mapsto> ?i))\<rparr>"
  have set: "Set c key v ttl now created = Inr ?c'"
    using assms by (simp add: Set_def Let_def)
  have tab: "table ?c' key = Some ?i"
    by (simp add: table_def)
  have word: "UnixNano (Add now d) = word_of_int (now + sint d)" for d
    by (simp only: UnixNano_def Add_def)
  have exact: "sint (UnixNano (Add now d)) = now + sint d"
    if "- (2 ^ 63) \<le> now + sint d \<and> now + sint d < 2 ^ 63" for d
    using that by (simp only: word sint_word_of_int_in_range)
  have a: "ttl = 0 \<and> 0 <s defaultExpiration c
      \<longrightarrow> expiration ?i = word_of_int (now + sint (defaultExpiration c)) \<and>
          (- (2 ^ 63) \<le> now + sint (defaultExpiration c) \<and>
           now + sint (defaultExpiration c) < 2 ^ 63
             \<longrightarrow> sint (expiration ?i) = now + sint (defaultExpiration c))"
    using word [of "defaultExpiration c"] exact [of "defaultExpiration c"] by simp
  have b: "ttl = 0 \<and> \<not> 0 <s defaultExpiration c \<longrightarrow> expiration ?i = 0"
    by simp
  have c: "0 <s ttl
      \<longrightarrow> expiration ?i = word_of_int (now + sint ttl) \<and>
          (- (2 ^ 63) \<le> now + sint ttl \<and> now + sint ttl < 2 ^ 63
             \<longrightarrow> sint (expiration ?i) = now + sint ttl)"
    using word [of ttl] exact [of ttl] by auto
  have d: "ttl <s 0 \<longrightarrow> expiration ?i = 0"
    using sless_zero_neg [of ttl] by simp
  have "Set c key v ttl now created = Inr ?c' \<and> table ?c' key = Some ?i \<and>
        value' ?i = v \<and> createdAt ?i = created"
    using set tab by simp
  with a b c d show ?thesis
    by blast
qed

theorem Set_expiration_witness:
  "cache stale_engine = Some stale_table \<and>
   cache wrapped_engine = Some [''a'' \<mapsto> wrapped_item] \<and>
   (0::int64) <s defaultExpiration stale_engine \<and>
   \<not> (0::int64) <s defaultExpiration wrapped_engine \<and>
   (0::int64) <s 100 \<and> (- 1 :: int64) <s 0 \<and>
   - (2 ^ 63) \<le> 10 + sint (defaultExpiration stale_engine) \<and>
   10 + sint (defaultExpiration stale_engine) < 2 ^ 63 \<and>
   - (2 ^ 63) \<le> 10 + sint (100 :: int64) \<and> 10 + sint (100 :: int64) < 2 ^ 63 \<and>
   (\<exists>c' i. Set stale_engine ''k'' (Some ''v'') 0 10 11 = Inr c' \<and> table c' ''k'' = Some i \<and>
            sint (expiration i) = 17) \<and>
   (\<exists>c' i. Set wrapped_engine ''k'' (Some ''v'') 0 10 11 = Inr c' \<and> table c' ''k'' = Some i \<and>
            expiration i = 0) \<and>
   (\<exists>c' i. Set stale_engine ''k'' (Some ''v'') 100 10 11 = Inr c' \<and> table c' ''k'' = Some i \<and>
            sint (expiration i) = 110) \<and>
   (\<exists>c' i. Set stale_engine ''k'' (Some ''v'') (- 1) 10 11 = Inr c' \<and> table c' ''k'' = Some i \<and>
            expiration i = 0)"
proof -
  have s: "cache stale_engine = Some stale_table"
    and w: "cache wrapped_engine = Some [''a'' \<mapsto> wrapped_item]"
    by (simp_all add: stale_engine_def wrapped_engine_def)
  have d: "(0::int64) <s defaultExpiration stale_engine"
    "\<not> (0::int64) <s defaultExpiration wrapped_engine"
    "(0::int64) <s 100" "(- 1 :: int64) <s 0"
    by (simp_all add: stale_engine_def wrapped_engine_def word_sless_alt)
  have r: "sint (defaultExpiration stale_engine) = 7" "sint (100 :: int64) = 100"
    by (simp_all add: stale_engine_def)
  have first: "\<exists>c' i. Set stale_engine ''k'' (Some ''v'') 0 10 11 = Inr c' \<and>
      table c' ''k'' = Some i \<and> sint (expiration i) = 17"
    using Set_expiration [OF s, of "''k''" "Some ''v''" 0 10 11] d(1) by (simp add: r) blast
  have second: "\<exists>c' i. Set wrapped_engine ''k'' (Some ''v'') 0 10 11 = Inr c' \<and>
      table c' ''k'' = Some i \<and> expiration i = 0"
    using Set_expiration [OF w, of "''k''" "Some ''v''" 0 10 11] d(2) by simp blast
  have third: "\<exists>c' i. Set stale_engine ''k'' (Some ''v'') 100 10 11 = Inr c' \<and>
      table c' ''k'' = Some i \<and> sint (expiration i) = 110"
    using Set_expiration [OF s, of "''k''" "Some ''v''" 100 10 11] d(3) by (simp add: r) blast
  have fourth: "\<exists>c' i. Set stale_engine ''k'' (Some ''v'') (- 1) 10 11 = Inr c' \<and>
      table c' ''k'' = Some i \<and> expiration i = 0"
    using Set_expiration [OF s, of "''k''" "Some ''v''" "- 1" 10 11] d(4) by simp blast
  show ?thesis
    using s w d first second third fourth by (simp add: r)
qed

subsection \<open>Delete and Flush\<close>

text \<open>
  C4: \<^verbatim>\<open>Delete(key)\<close> returns an error exactly when the key is absent, and then the error
  is the not-found message for that key and the engine is unchanged. When the key is
  present it returns no error, removes that entry and no other, and a \<^verbatim>\<open>Get\<close> of the key
  afterwards reports not-found.
\<close>

theorem Delete_result:
  "(fst (Delete c key) \<noteq> None \<longleftrightarrow> table c key = None) \<and>
   (table c key = None \<longrightarrow>
      Delete c key =
        (Some (errors_New (''key: '' @ [CHR 0x27] @ key @ [CHR 0x27] @ '' not found'')), c)) \<and>
   (table c key \<noteq> None \<longrightarrow>
      fst (Delete c key) = None \<and>
      table (snd (Delete c key)) = (table c)(key := None) \<and>
      fst (Get (snd (Delete c key)) key now) = (None, False))"
  by (auto simp: Delete_def Get_def split: option.splits)

theorem Delete_result_witness:
  "table stale_engine ''c'' = None \<and>
   Delete stale_engine ''c'' = (Some (errors_New ''key: 'c' not found''), stale_engine) \<and>
   table stale_engine ''a'' \<noteq> None \<and>
   fst (Delete stale_engine ''a'') = None \<and>
   table (snd (Delete stale_engine ''a'')) ''a'' = None \<and>
   table (snd (Delete stale_engine ''a'')) ''b'' = Some pinned_item \<and>
   fst (Get (snd (Delete stale_engine ''a'')) ''a'' 10) = (None, False)"
  using Delete_result [of stale_engine "''c''" 10] Delete_result [of stale_engine "''a''" 10]
  by (simp add: table_stale_engine)

text \<open>
  C5: after \<^verbatim>\<open>Flush\<close> the map is a fresh empty map, and \<^verbatim>\<open>Get\<close> reports not-found for
  every key at every time, whatever was stored before.
\<close>

theorem Flush_empties:
  "cache (Flush c) = Some Map.empty \<and> table (Flush c) = Map.empty \<and>
   fst (Get (Flush c) key now) = (None, False)"
  by (simp add: Flush_def table_def Get_def)

text \<open>
  C9: \<^verbatim>\<open>Set\<close> and \<^verbatim>\<open>Delete\<close> on a key \<open>k\<close> leave the entry of every other key \<open>k'\<close>
  (value, creation time and expiration) as it was. \<^verbatim>\<open>Set\<close> fails only on a nil map,
  which has no entries.
\<close>

theorem Set_Delete_other_keys:
  assumes "k' \<noteq> k"
  shows "(case Set c k v ttl now created of
            Inl _ \<Rightarrow> cache c = None
          | Inr c' \<Rightarrow> table c' k' = table c k') \<and>
         table (snd (Delete c k)) k' = table c k'"
proof -
  have "table (snd (Delete c k)) k' = table c k'"
    using assms by (simp add: Delete_def split: option.splits)
  moreover have "case Set c k v ttl now created of
                   Inl _ \<Rightarrow> cache c = None
                 | Inr c' \<Rightarrow> table c' k' = table c k'"
    using assms by (simp add: Set_def table_def Let_def split: option.splits)
  ultimately show ?thesis by simp
qed

theorem Set_Delete_other_keys_witness:
  "''b'' \<noteq> ''a'' \<and>
   Set stale_engine ''a'' (Some ''new'') 100 10 10 = Inr refreshed_engine \<and>
   table refreshed_engine ''b'' = table stale_engine ''b'' \<and>
   table (snd (Delete stale_engine ''a'')) ''b'' = table stale_engine ''b''"
proof -
  have ne: "''b'' \<noteq> ''a''" by simp
  show ?thesis
    using Set_Delete_other_keys [OF ne, of stale_engine "Some ''new''" 100 10 10]
    by (simp add: Set_stale_engine)
qed

subsection \<open>One sweep cycle\<close>

text \<open>
  C6, as the specification states it: a sweep cycle removes exactly the keys whose entry
  has a nonzero expiration strictly in the past at scan time. The scan tests
  \<^verbatim>\<open>expiration > 0\<close>: the entry of \<open>wrapped_engine\<close> has a nonzero expiration that lies in
  the past, and the sweep cycle leaves the engine as it is. The last conjunct is the run
  of the process from its construction: the sweeper scans and goes back to waiting.
\<close>

theorem GC_turn_keeps_negative_expiration:
  "table wrapped_engine ''a'' = Some wrapped_item \<and>
   expiration wrapped_item \<noteq> 0 \<and>
   expiration wrapped_item <s UnixNano (steady_clock 1793000000000000001 ''a'') \<and>
   GC_turn wrapped_engine [''a''] (steady_clock 1793000000000000001) = Some wrapped_engine \<and>
   run (NewInMemoryCache 0 20)
     [CallSet ''a'' (Some ''x'') 9223372036854775807 1793000000000000000 1793000000000000000,
      GcWake, GcScan [''a''] (steady_clock 1793000000000000001)] =
   Some \<lparr>engine = wrapped_engine, sweeper = Idle\<rparr>"
proof -
  have z: "(0::int64) <s 20" "(0::int64) <s 9223372036854775807"
    by (simp_all add: word_sless_alt)
  have cycle: "table wrapped_engine ''a'' = Some wrapped_item \<and>
      expiration wrapped_item \<noteq> 0 \<and>
      expiration wrapped_item <s UnixNano (steady_clock 1793000000000000001 ''a'') \<and>
      GC_turn wrapped_engine [''a''] (steady_clock 1793000000000000001) = Some wrapped_engine"
    by (simp add: steady_clock_def wrapped_item_def wrapped_engine_def
        GC_turn_def expiredKeys_def table_def UnixNano_def word_sless_alt)
  have trace: "run (NewInMemoryCache 0 20)
     [CallSet ''a'' (Some ''x'') 9223372036854775807 1793000000000000000 1793000000000000000,
      GcWake, GcScan [''a''] (steady_clock 1793000000000000001)] =
     Some \<lparr>engine = wrapped_engine, sweeper = Idle\<rparr>"
    by (simp add: NewInMemoryCache_def StartGC_def Set_def expiredKeys_def table_def
        steady_clock_def wrapped_engine_def wrapped_item_def UnixNano_Add_wraps z
        word_sless_alt)
  show ?thesis
    using cycle trace by simp
qed

text \<open>
  C6, amended: on an allocated map, with a range that visits every key of the map, one
  sweep cycle without interleaved writes removes exactly the keys whose entry has an
  expiration greater than zero and strictly before the clock reading taken when the scan
  visits the key, and leaves every other entry unchanged; if there is no such key, the
  collected list is empty, \<^verbatim>\<open>clearItems\<close> is not called and the engine is unchanged.
\<close>

theorem GC_turn_removes_expired:
  assumes "cache c = Some m" and "set order = dom m"
  shows "\<exists>c'. GC_turn c order clk = Some c' \<and>
           (\<forall>k i. table c k = Some i \<and> 0 <s expiration i \<and> expiration i <s UnixNano (clk k)
                    \<longrightarrow> table c' k = None) \<and>
           (\<forall>k i. table c k = Some i \<and> \<not> (0 <s expiration i \<and> expiration i <s UnixNano (clk k))
                    \<longrightarrow> table c' k = Some i) \<and>
           (\<forall>k. table c k = None \<longrightarrow> table c' k = None) \<and>
           ((\<forall>k i. table c k = Some i
                     \<longrightarrow> \<not> (0 <s expiration i \<and> expiration i <s UnixNano (clk k)))
              \<longrightarrow> expiredKeys c order clk = [] \<and> c' = c)"
proof -
  let ?keys = "expiredKeys c order clk"
  have tab: "table c = m"
    using assms(1) by (simp add: table_def)
  have keys: "set ?keys =
      {k. \<exists>i. m k = Some i \<and> expiration i <s UnixNano (clk k) \<and> 0 <s expiration i}"
    using assms(2) by (auto simp: set_expiredKeys tab)
  show ?thesis
  proof (cases "?keys = []")
    case True
    then have turn: "GC_turn c order clk = Some c"
      using assms(1) by (simp add: GC_turn_def)
    from True keys
    have none: "\<And>k i. m k = Some i \<Longrightarrow> \<not> (0 <s expiration i \<and> expiration i <s UnixNano (clk k))"
      by auto
    show ?thesis
      using turn True none by (auto simp: tab)
  next
    case False
    then have turn: "GC_turn c order clk = Some (clearItems c ?keys)"
      using assms(1) by (simp add: GC_turn_def)
    have after: "\<And>k. table (clearItems c ?keys) k = (if k \<in> set ?keys then None else m k)"
      by (simp add: table_clearItems tab)
    from False obtain k where "k \<in> set ?keys"
      by (cases ?keys) auto
    then have some: "\<exists>k i. m k = Some i \<and> 0 <s expiration i \<and> expiration i <s UnixNano (clk k)"
      unfolding keys by auto
    show ?thesis
      unfolding turn tab using some by (auto simp: after keys)
  qed
qed

theorem GC_turn_removes_expired_witness:
  "cache stale_engine = Some stale_table \<and> set [''b'', ''a''] = dom stale_table \<and>
   (\<exists>c'. GC_turn stale_engine [''b'', ''a''] (steady_clock 10) = Some c' \<and>
         table c' ''a'' = None \<and> table c' ''b'' = Some pinned_item)"
proof -
  have s: "cache stale_engine = Some stale_table"
    by (simp add: stale_engine_def)
  have d: "set [''b'', ''a''] = dom stale_table"
    by (auto simp: stale_table_def)
  have a: "0 <s expiration stale_item \<and> expiration stale_item <s UnixNano (steady_clock 10 ''a'')"
    by (simp add: stale_item_def steady_clock_def UnixNano_def word_sless_alt)
  have b: "\<not> (0 <s expiration pinned_item \<and>
               expiration pinned_item <s UnixNano (steady_clock 10 ''b''))"
    by (simp add: pinned_item_def)
  from GC_turn_removes_expired [OF s d, of "steady_clock 10"] obtain c'
    where turn: "GC_turn stale_engine [''b'', ''a''] (steady_clock 10) = Some c'"
      and gone: "\<forall>k i. table stale_engine k = Some i \<and> 0 <s expiration i \<and>
                   expiration i <s UnixNano (steady_clock 10 k) \<longrightarrow> table c' k = None"
      and kept: "\<forall>k i. table stale_engine k = Some i \<and> \<not> (0 <s expiration i \<and>
                   expiration i <s UnixNano (steady_clock 10 k)) \<longrightarrow> table c' k = Some i"
    by blast
  from gone a table_stale_engine(1) have "table c' ''a'' = None"
    by blast
  moreover from kept b table_stale_engine(2) have "table c' ''b'' = Some pinned_item"
    by blast
  ultimately show ?thesis
    using s d turn by simp
qed

subsection \<open>Construction and reachable states\<close>

text \<open>
  C8: construction returns an engine with an empty, allocated map and the two
  configured durations, and the sweeper is started (waiting for its first tick) exactly
  when the cleanup interval is greater than zero. With a zero or negative interval the
  sweeper is never started: no run of the process contains a sweeper action, a key that
  is in the map stays in the map as long as no \<^verbatim>\<open>Delete\<close> and no \<^verbatim>\<open>Flush\<close> is called,
  and its entry stays the same as long as, besides, no \<^verbatim>\<open>Set\<close> overwrites that key.
\<close>

theorem NewInMemoryCache_sweeper:
  "engine (NewInMemoryCache d ci) =
     \<lparr>cache = Some Map.empty, defaultExpiration = d, cleanupInterval = ci\<rparr> \<and>
   table (engine (NewInMemoryCache d ci)) = Map.empty \<and>
   (sweeper (NewInMemoryCache d ci) = Idle \<longleftrightarrow> 0 <s ci) \<and>
   (sweeper (NewInMemoryCache d ci) = NotStarted \<longleftrightarrow> \<not> 0 <s ci) \<and>
   (\<not> 0 <s ci \<and> run (NewInMemoryCache d ci) acts = Some p
      \<longrightarrow> sweeper p = NotStarted \<and> (\<forall>a\<in>set acts. \<not> sweeper_action a)) \<and>
   (\<not> 0 <s ci \<and> run (NewInMemoryCache d ci) acts = Some p \<and> run p later = Some p' \<and>
    (\<forall>a\<in>set later. \<not> removal_call a) \<and> table (engine p) k \<noteq> None
      \<longrightarrow> table (engine p') k \<noteq> None) \<and>
   (\<not> 0 <s ci \<and> run (NewInMemoryCache d ci) acts = Some p \<and> run p later = Some p' \<and>
    (\<forall>a\<in>set later. \<not> removal_call a \<and> \<not> sets_key k a)
      \<longrightarrow> table (engine p') k = table (engine p) k)"
proof -
  have a: "sweeper p = NotStarted \<and> (\<forall>a\<in>set acts. \<not> sweeper_action a)"
    if "\<not> 0 <s ci" and "run (NewInMemoryCache d ci) acts = Some p"
    using run_NotStarted [OF _ that(2)] that(1) by (simp add: New_sweeper)
  have b: "table (engine p') k \<noteq> None"
    if "\<not> 0 <s ci" and "run (NewInMemoryCache d ci) acts = Some p" and "run p later = Some p'"
      and "\<forall>a\<in>set later. \<not> removal_call a" and "table (engine p) k \<noteq> None"
    using run_keeps_keys [OF _ that(3,4,5)] a [OF that(1,2)] by simp
  have c: "table (engine p') k = table (engine p) k"
    if "\<not> 0 <s ci" and "run (NewInMemoryCache d ci) acts = Some p" and "run p later = Some p'"
      and "\<forall>a\<in>set later. \<not> removal_call a \<and> \<not> sets_key k a"
    using run_keeps_entry [OF _ that(3,4)] a [OF that(1,2)] by simp
  show ?thesis
    using a b c by (simp add: New_engine New_sweeper table_def)
qed

theorem NewInMemoryCache_sweeper_witness:
  "\<not> 0 <s (0::int64) \<and> (0::int64) <s 20 \<and>
   sweeper (NewInMemoryCache 7 20 :: string process) = Idle \<and>
   (\<exists>p p'. run (NewInMemoryCache 7 0) [CallSet ''a'' (Some ''x'') 0 10 10] = Some p \<and>
      run p [CallGet ''a'' 100, CallSet ''b'' (Some ''y'') 0 100 100] = Some p' \<and>
      sweeper p = NotStarted \<and>
      table (engine p) ''a'' = Some \<lparr>value' = Some ''x'', createdAt = 10, expiration = 17\<rparr> \<and>
      fst (Get (engine p') ''a'' 100) = (None, False) \<and>
      table (engine p') ''a'' = Some \<lparr>value' = Some ''x'', createdAt = 10, expiration = 17\<rparr>)"
proof -
  let ?new = "NewInMemoryCache 7 0 :: string process"
  let ?acts = "[CallSet ''a'' (Some ''x'') 0 10 10] :: string action list"
  let ?later = "[CallGet ''a'' 100, CallSet ''b'' (Some ''y'') 0 100 100] :: string action list"
  let ?item = "\<lparr>value' = Some ''x'', createdAt = 10, expiration = 17\<rparr> :: string Item"
  let ?p = "\<lparr>engine = \<lparr>cache = Some [''a'' \<mapsto> ?item], defaultExpiration = 7, cleanupInterval = 0\<rparr>,
             sweeper = NotStarted\<rparr>"
  have z: "\<not> 0 <s (0::int64)" "(0::int64) <s 20" "(0::int64) <s 7"
    by (simp_all add: word_sless_alt)
  have t: "UnixNano (Add 10 7) = 17" "UnixNano (Add 100 7) = 107"
    by (simp_all add: UnixNano_def Add_def)
  have r1: "run ?new ?acts = Some ?p"
    by (simp add: NewInMemoryCache_def Set_def z t)
  have "\<exists>p'. run ?p ?later = Some p'"
    by (simp add: Set_def z t)
  then obtain p' where r2: "run ?p ?later = Some p'" ..
  have quiet: "\<forall>a\<in>set ?later. \<not> removal_call a \<and> \<not> sets_key ''a'' a"
    by simp
  have present: "table (engine ?p) ''a'' = Some ?item"
    by (simp add: table_def)
  note w = NewInMemoryCache_sweeper [where d = 7 and ci = 0 and acts = ?acts and p = ?p
      and later = ?later and p' = p' and k = "''a''"]
  from w z(1) r1 r2 quiet have same: "table (engine p') ''a'' = table (engine ?p) ''a''"
    by blast
  from w z(1) r1 have ns: "sweeper ?p = NotStarted"
    by blast
  have found: "fst (Get (engine p') ''a'' 100) = (None, False)"
    using same present by (simp add: Get_def UnixNano_def word_sless_alt)
  have started: "sweeper (NewInMemoryCache 7 20 :: string process) = Idle"
    using NewInMemoryCache_sweeper [where d = 7 and ci = 20 and acts = ?acts and p = ?p
      and later = ?later and p' = p' and k = "''a''"] z(2)
    by blast
  from same present have kept: "table (engine p') ''a'' = Some ?item"
    by simp
  have "\<exists>p p'. run ?new ?acts = Some p \<and> run p ?later = Some p' \<and> sweeper p = NotStarted \<and>
          table (engine p) ''a'' = Some ?item \<and>
          fst (Get (engine p') ''a'' 100) = (None, False) \<and>
          table (engine p') ''a'' = Some ?item"
  proof (intro exI conjI)
    show "run ?new ?acts = Some ?p" by (rule r1)
    show "run ?p ?later = Some p'" by (rule r2)
    show "sweeper ?p = NotStarted" by (rule ns)
    show "table (engine ?p) ''a'' = Some ?item" by (rule present)
    show "fst (Get (engine p') ''a'' 100) = (None, False)" by (rule found)
    show "table (engine p') ''a'' = Some ?item" by (rule kept)
  qed
  with z(1,2) started show ?thesis
    by simp
qed

text \<open>
  C10: construction allocates the map and \<^verbatim>\<open>Flush\<close> replaces it with a fresh empty map,
  not with nil. In every state the process reaches from construction by calls of
  \<^verbatim>\<open>Get\<close>, \<^verbatim>\<open>Set\<close>, \<^verbatim>\<open>Delete\<close> and \<^verbatim>\<open>Flush\<close> and by steps of the sweeper, interleaved
  in any order, the map is not nil; so \<^verbatim>\<open>Set\<close> does not panic there, and the sweeper has
  not returned and does not return at its next nil test.
\<close>

theorem cache_never_nil:
  assumes "run (NewInMemoryCache d ci) acts = Some p"
  shows "cache (engine (NewInMemoryCache d ci)) = Some Map.empty \<and>
         cache (Flush c) = Some Map.empty \<and>
         cache (engine p) \<noteq> None \<and> sweeper p \<noteq> Exited \<and>
         step p (CallSet key v ttl now created) \<noteq> None \<and>
         step p GcWake \<noteq> Some (p\<lparr>sweeper := Exited\<rparr>)"
proof -
  have inv: "cache (engine p) \<noteq> None \<and> sweeper p \<noteq> Exited"
    by (rule run_cache_allocated [OF _ _ assms]) (simp_all add: New_engine New_sweeper)
  then have "step p (CallSet key v ttl now created) \<noteq> None"
    using Set_allocated [of "engine p" key v ttl now created] by auto
  moreover have "step p GcWake \<noteq> Some (p\<lparr>sweeper := Exited\<rparr>)"
  proof
    assume "step p GcWake = Some (p\<lparr>sweeper := Exited\<rparr>)"
    from step_cache_allocated [OF _ _ this] inv show False by simp
  qed
  ultimately show ?thesis
    using inv by (simp add: New_engine)
qed

theorem cache_never_nil_witness:
  "\<exists>p. run (NewInMemoryCache 7 20)
          [CallSet ''a'' (Some ''x'') 0 10 10, CallFlush, CallSet ''b'' (Some ''y'') 5 10 10,
           GcWake, GcScan [''b''] (steady_clock 100), CallSet ''c'' (Some ''z'') 0 100 100,
           CallDelete ''c'', CallGet ''b'' 100, GcEvict] = Some p \<and>
        cache (engine p) \<noteq> None \<and> sweeper p = Idle \<and> table (engine p) ''b'' = None \<and>
        step p (CallSet ''d'' (Some ''w'') 0 200 200) \<noteq> None"
proof -
  let ?acts = "[CallSet ''a'' (Some ''x'') 0 10 10, CallFlush, CallSet ''b'' (Some ''y'') 5 10 10,
           GcWake, GcScan [''b''] (steady_clock 100), CallSet ''c'' (Some ''z'') 0 100 100,
           CallDelete ''c'', CallGet ''b'' 100, GcEvict] :: string action list"
  have z: "(0::int64) <s 20" "(0::int64) <s 7" "(0::int64) <s 5" "(0::int64) <s 15" "(15::int64) <s 100"
    by (simp_all add: word_sless_alt)
  have t: "UnixNano (Add 10 7) = 17" "UnixNano (Add 100 7) = 107" "UnixNano (Add 10 5) = 15"
    "UnixNano 100 = 100"
    by (simp_all add: UnixNano_def Add_def)
  have "\<exists>p. run (NewInMemoryCache 7 20) ?acts = Some p \<and> sweeper p = Idle \<and>
            table (engine p) ''b'' = None"
    by (simp add: NewInMemoryCache_def StartGC_def Set_def Flush_def Delete_def expiredKeys_def
        steady_clock_def table_def delete_def z t)
  then obtain p where r: "run (NewInMemoryCache 7 20) ?acts = Some p"
    and i: "sweeper p = Idle" and b: "table (engine p) ''b'' = None"
    by blast
  from cache_never_nil [OF r, of stale_engine "''d''" "Some ''w''" 0 200 200] r i b
  show ?thesis by blast
qed

end
